theory Spec2Isabelle
  imports Complex_Main "HOL-Library.Multiset"
begin

section \<open>Data model of ContextPlayground.tsx\<close>

text \<open>
  \<^verbatim>\<open>type BlockType = 'user' | 'assistant' | 'system'\<close> and
  \<^verbatim>\<open>interface MessageBlock { id; type; content; tokens }\<close>.
  The fields \<open>id\<close> and \<open>type\<close> carry a suffix, since \<open>id\<close> is a constant of HOL.
  \<open>tokens\<close> is a JavaScript number holding a non-negative integer; it is a \<open>nat\<close> here
  (sums of such numbers are exact below \<open>2 ^ 53\<close>).
\<close>

datatype BlockType = User | Assistant | System

record MessageBlock =
  id_blk :: string
  type_blk :: BlockType
  content :: string
  tokens :: nat

definition INITIAL_BLOCKS :: "MessageBlock list" where
  "INITIAL_BLOCKS =
     [\<lparr>id_blk = ''system-1'', type_blk = System,
       content = ''You are a helpful AI assistant.'', tokens = 7\<rparr>]"

text \<open>
  The parts of the drag events that the handlers read: \<open>active.id\<close>,
  \<open>active.data.current\<close> (absent, or an object with \<open>type\<close> and \<open>isSource\<close>) and
  \<open>over\<close> (\<open>null\<close>, or a droppable with an \<open>id\<close>).
\<close>

record DragData =
  type_data :: BlockType
  isSource :: bool

record Active =
  id_act :: string
  data_current :: "DragData option"

record Over =
  id_over :: string

record DragStartEvent =
  active :: Active

record DragEndEvent = DragStartEvent +
  over :: "Over option"

text \<open>The test \<^verbatim>\<open>active.data.current?.isSource\<close> that both drag handlers make.\<close>

definition is_source :: "Active \<Rightarrow> bool" where
  "is_source a = (case data_current a of None \<Rightarrow> False | Some d \<Rightarrow> isSource d)"

text \<open>The three \<open>useState\<close> cells of the component.\<close>

record PlaygroundState =
  messages :: "MessageBlock list"
  activeId :: "string option"
  draggedType :: "BlockType option"

definition initialState :: PlaygroundState where
  "initialState = \<lparr>messages = INITIAL_BLOCKS, activeId = None, draggedType = None\<rparr>"

section \<open>Derived statistics\<close>

text \<open>
  \<^verbatim>\<open>messages.reduce((acc, msg) => acc + msg.tokens, 0)\<close>, computed from the array at
  every render; \<open>reduce\<close> folds from the left.
\<close>

definition totalTokens :: "MessageBlock list \<Rightarrow> nat" where
  "totalTokens ms = foldl (\<lambda>acc msg. acc + tokens msg) 0 ms"

definition maxContext :: nat where
  "maxContext = 4096"

definition usagePercent :: "MessageBlock list \<Rightarrow> real" where
  "usagePercent ms = (real (totalTokens ms) / real maxContext) * 100"

section \<open>Array primitives used by the handlers\<close>

text \<open>
  \<open>Array.prototype.findIndex\<close>: the index of the first element that satisfies the
  predicate, \<open>-1\<close> when there is none.
\<close>

fun findIndex :: "('a \<Rightarrow> bool) \<Rightarrow> 'a list \<Rightarrow> int" where
  "findIndex p [] = -1"
| "findIndex p (x # xs) =
     (if p x then 0
      else (let r = findIndex p xs in if r < 0 then -1 else r + 1))"

text \<open>
  \<open>Array.prototype.splice(start, deleteCount, ...items)\<close>: a negative \<open>start\<close> counts
  from the end, and both \<open>start\<close> and \<open>deleteCount\<close> are clamped to the array. The
  result is the pair of the removed elements and the array after the call.
\<close>

definition splice_start :: "int \<Rightarrow> nat \<Rightarrow> nat" where
  "splice_start start len =
     (if start < 0 then nat (max (int len + start) 0) else min (nat start) len)"

definition splice :: "'a list \<Rightarrow> int \<Rightarrow> nat \<Rightarrow> 'a list \<Rightarrow> 'a list \<times> 'a list" where
  "splice xs start deleteCount items =
     (let k = splice_start start (length xs);
          d = min deleteCount (length xs - k)
      in (take d (drop k xs), take k xs @ items @ drop (k + d) xs))"

text \<open>
  \<open>arrayMove\<close> of \<open>@dnd-kit/sortable\<close>, the library function called at line 194:
  \<^verbatim>\<open>
  const newArray = array.slice();
  newArray.splice(to < 0 ? newArray.length + to : to, 0, newArray.splice(from, 1)[0]);
  return newArray;
  \<close>
  The arguments of the outer \<open>splice\<close> are evaluated left to right, so the destination
  is computed from the length before the removal. \<open>newArray.splice(from, 1)[0]\<close> is
  \<open>undefined\<close> when nothing was removed. An element of the result is \<open>Some x\<close> for an
  element \<open>x\<close> and \<open>None\<close> for \<open>undefined\<close>.
\<close>

definition arrayMove :: "'a list \<Rightarrow> int \<Rightarrow> int \<Rightarrow> 'a option list" where
  "arrayMove array from to =
     (let newArray = map Some array;
          dest = (if to < 0 then int (length newArray) + to else to);
          (removed, newArray1) = splice newArray from 1 [];
          item = (case removed of [] \<Rightarrow> None | x # _ \<Rightarrow> x)
      in snd (splice newArray1 dest 0 [item]))"

section \<open>Double arithmetic used by the handlers\<close>

text \<open>
  A non-negative finite double with the value \<open>mantissa * 2 ^ exponent\<close>. The doubles
  \<open>d\<close> with \<open>0 \<le> d < 1\<close>, which are the results of \<open>Math.random()\<close>, are those with a
  mantissa below \<open>2 ^ 53\<close> and an exponent from \<open>-1074\<close> to \<open>-53\<close>: a normal double
  below 1 has a mantissa of 53 bits and an exponent of at most \<open>-53\<close>, and a subnormal
  one has the exponent \<open>-1074\<close>.
\<close>

record double =
  mantissa :: nat
  exponent :: int

definition unit_double :: "double \<Rightarrow> bool" where
  "unit_double d = (mantissa d < 2 ^ 53 \<and> - 1074 \<le> exponent d \<and> exponent d \<le> - 53)"

definition zero_double :: double where
  "zero_double = \<lparr>mantissa = 0, exponent = - 1074\<rparr>"

definition half_double :: double where
  "half_double = \<lparr>mantissa = 4503599627370496, exponent = - 53\<rparr>"

text \<open>
  The product \<open>d * 20\<close> of IEEE 754 binary64, for a double \<open>d\<close> below 1. The exact
  product is \<open>20 * mantissa * 2 ^ exponent\<close>. When \<open>20 * mantissa\<close> has more than 53
  bits, the \<open>k\<close> bits in excess are rounded away, to the nearest value and to the even
  mantissa on a tie; a product of 53 bits or fewer is exact. Nothing overflows, since
  the exponent is at most \<open>-53\<close>.
\<close>

fun excess_bits :: "nat \<Rightarrow> nat" where
  "excess_bits n = (if n < 2 ^ 53 then 0 else Suc (excess_bits (n div 2)))"

declare excess_bits.simps [simp del]

definition round_even :: "nat \<Rightarrow> nat \<Rightarrow> nat" where
  "round_even n k =
     (let q = n div 2 ^ k; r = n mod 2 ^ k
      in if 2 ^ k < 2 * r \<or> (2 * r = 2 ^ k \<and> odd q) then q + 1 else q)"

definition times20 :: "double \<Rightarrow> double" where
  "times20 d =
     (let n = 20 * mantissa d; k = excess_bits n
      in \<lparr>mantissa = round_even n k, exponent = exponent d + int k\<rparr>)"

text \<open>\<open>Math.floor\<close> of a non-negative double, as a natural number.\<close>

definition floor_double :: "double \<Rightarrow> nat" where
  "floor_double d =
     (if 0 \<le> exponent d then mantissa d * 2 ^ nat (exponent d)
      else mantissa d div 2 ^ nat (- exponent d))"

section \<open>The handlers\<close>

text \<open>\<open>handleDragStart\<close>, lines 155 to 162.\<close>

definition handleDragStart :: "DragStartEvent \<Rightarrow> PlaygroundState \<Rightarrow> PlaygroundState" where
  "handleDragStart event s =
     (let s1 = s\<lparr>activeId := Some (id_act (active event))\<rparr>
      in if is_source (active event)
         then s1\<lparr>draggedType := Some (type_data (the (data_current (active event))))\<rparr>
         else s1)"

text \<open>
  The block built at lines 174 to 183. \<open>nanoid()\<close> and \<open>Math.random()\<close> are the two
  sources of nondeterminism; their results are the parameters \<open>nid\<close> and \<open>rnd\<close>.
  \<open>Math.random()\<close> returns a double \<open>0 \<le> rnd < 1\<close>; the cost
  \<^verbatim>\<open>Math.floor(Math.random() * 20) + 5\<close> multiplies doubles, so the product is rounded
  before the floor is taken.
\<close>

definition newBlock :: "string \<Rightarrow> double \<Rightarrow> BlockType \<Rightarrow> MessageBlock" where
  "newBlock nid rnd ty =
     \<lparr>id_blk = nid, type_blk = ty,
      content = (if ty = User then ''Can you explain quantum computing simply?''
                 else if ty = Assistant then ''Quantum computing uses quantum bits or qubits...''
                 else ''You are an expert in physics.''),
      tokens = floor_double (times20 rnd) + 5\<rparr>"

text \<open>
  The updater passed to \<open>setMessages\<close> at lines 191 to 195.
\<close>

definition reorder :: "string \<Rightarrow> string \<Rightarrow> MessageBlock list \<Rightarrow> MessageBlock option list" where
  "reorder activeIdent overIdent items =
     (let oldIndex = findIndex (\<lambda>i. id_blk i = activeIdent) items;
          newIndex = findIndex (\<lambda>i. id_blk i = overIdent) items
      in arrayMove items oldIndex newIndex)"

text \<open>
  \<open>handleDragEnd\<close>, lines 164 to 197. \<open>messages\<close> is an array of blocks; when the
  updater returns an array that holds \<open>undefined\<close>, the handler itself returns, and the
  render that follows throws a \<open>TypeError\<close> at \<open>msg.tokens\<close>. That outcome is the
  error \<open>UndefinedBlock\<close>; it carries the three cells as the handler left them, the
  array with \<open>undefined\<close> included.
\<close>

record BrokenState =
  broken_messages :: "MessageBlock option list"
  broken_activeId :: "string option"
  broken_draggedType :: "BlockType option"

datatype error = UndefinedBlock BrokenState

definition handleDragEnd ::
  "string \<Rightarrow> double \<Rightarrow> DragEndEvent \<Rightarrow> PlaygroundState \<Rightarrow> error + PlaygroundState" where
  "handleDragEnd nid rnd event s =
     (let s1 = s\<lparr>activeId := None, draggedType := None\<rparr>
      in case over event of
           None \<Rightarrow> Inr s1
         | Some ov \<Rightarrow>
             if is_source (active event)
             then Inr (s1\<lparr>messages :=
                    messages s1 @ [newBlock nid rnd (type_data (the (data_current (active event))))]\<rparr>)
             else if id_act (active event) \<noteq> id_over ov
             then (case those (reorder (id_act (active event)) (id_over ov) (messages s1)) of
                     None \<Rightarrow>
                       Inl (UndefinedBlock
                         \<lparr>broken_messages =
                            reorder (id_act (active event)) (id_over ov) (messages s1),
                          broken_activeId = activeId s1, broken_draggedType = draggedType s1\<rparr>)
                   | Some items \<Rightarrow> Inr (s1\<lparr>messages := items\<rparr>))
             else Inr s1)"

text \<open>\<open>handleDelete\<close>, lines 199 to 201.\<close>

definition handleDelete :: "string \<Rightarrow> PlaygroundState \<Rightarrow> PlaygroundState" where
  "handleDelete ident s = s\<lparr>messages := filter (\<lambda>m. id_blk m \<noteq> ident) (messages s)\<rparr>"

text \<open>The handler of the reset button, line 221: \<^verbatim>\<open>setMessages(INITIAL_BLOCKS)\<close>.\<close>

definition reset :: "PlaygroundState \<Rightarrow> PlaygroundState" where
  "reset s = s\<lparr>messages := INITIAL_BLOCKS\<rparr>"

text \<open>
  The two kinds of draggable that the page registers. A palette entry (lines 27 to 30) has
  the id \<^verbatim>\<open>source-${type}\<close> and the data \<^verbatim>\<open>{ type, isSource: true }\<close>. A block of
  the list (line 78) is registered by \<open>useSortable\<close> under its own id, and its data
  has no \<open>isSource\<close>.
\<close>

definition sourceActive :: "BlockType \<Rightarrow> Active" where
  "sourceActive ty =
     \<lparr>id_act = ''source-'' @ (case ty of User \<Rightarrow> ''user'' | Assistant \<Rightarrow> ''assistant''
                                | System \<Rightarrow> ''system''),
      data_current = Some \<lparr>type_data = ty, isSource = True\<rparr>\<rparr>"

definition sortableActive :: "string \<Rightarrow> Active" where
  "sortableActive ident = \<lparr>id_act = ident, data_current = None\<rparr>"

section \<open>Reachable states\<close>

text \<open>
  The states that the four handlers produce from the initial render, when every string
  that \<open>nanoid()\<close> returns at a drag-end is not the id of a block of the current
  sequence. The handler does not check this; the premise is part of the rule
  \<open>reach_end\<close>. A drag-end whose state update stores \<open>undefined\<close> has no successor state.
\<close>

inductive reachable :: "PlaygroundState \<Rightarrow> bool" where
  reach_init: "reachable initialState"
| reach_start: "reachable s \<Longrightarrow> reachable (handleDragStart event s)"
| reach_end: "reachable s \<Longrightarrow> nid \<notin> id_blk ` set (messages s) \<Longrightarrow> unit_double rnd \<Longrightarrow>
     handleDragEnd nid rnd event s = Inr s' \<Longrightarrow> reachable s'"
| reach_delete: "reachable s \<Longrightarrow> reachable (handleDelete ident s)"
| reach_reset: "reachable s \<Longrightarrow> reachable (reset s)"

text \<open>
  The same rules with any string as the result of \<open>nanoid()\<close>: the states that the
  handlers themselves can produce.
\<close>

inductive reachable_any :: "PlaygroundState \<Rightarrow> bool" where
  any_init: "reachable_any initialState"
| any_start: "reachable_any s \<Longrightarrow> reachable_any (handleDragStart event s)"
| any_end: "reachable_any s \<Longrightarrow> unit_double rnd \<Longrightarrow>
     handleDragEnd nid rnd event s = Inr s' \<Longrightarrow> reachable_any s'"
| any_delete: "reachable_any s \<Longrightarrow> reachable_any (handleDelete ident s)"
| any_reset: "reachable_any s \<Longrightarrow> reachable_any (reset s)"

section \<open>Notions of the specification\<close>

text \<open>
  The specification describes \<open>move\<close> as a stable array move: the block at index \<open>i\<close>
  is taken out and put back so that it stands at index \<open>j\<close>.
\<close>

definition removeAt :: "nat \<Rightarrow> 'a list \<Rightarrow> 'a list" where
  "removeAt i xs = take i xs @ drop (Suc i) xs"

definition insertAt :: "nat \<Rightarrow> 'a \<Rightarrow> 'a list \<Rightarrow> 'a list" where
  "insertAt j x xs = take j xs @ [x] @ drop j xs"

definition stable_move :: "nat \<Rightarrow> nat \<Rightarrow> 'a list \<Rightarrow> 'a list" where
  "stable_move i j xs = insertAt j (xs ! i) (removeAt i xs)"

text \<open>
  The index that \<open>arrayMove\<close> works with for an id: the first index of a block with
  that id, and the last index of the array when \<open>findIndex\<close> returns \<open>-1\<close>.
\<close>

definition wrap_index :: "int \<Rightarrow> nat \<Rightarrow> nat" where
  "wrap_index v n = (if v < 0 then n - 1 else nat v)"

definition position :: "string \<Rightarrow> MessageBlock list \<Rightarrow> nat" where
  "position ident items = wrap_index (findIndex (\<lambda>i. id_blk i = ident) items) (length items)"

text \<open>The gesture state after any drag-end: both cells are \<open>null\<close>.\<close>

definition idle :: "PlaygroundState \<Rightarrow> PlaygroundState" where
  "idle s = s\<lparr>activeId := None, draggedType := None\<rparr>"

text \<open>
  The two gesture cells after a drag-end, read from whatever the handler left: a state,
  or the cells that come with an array holding \<open>undefined\<close>.
\<close>

definition gesture_after :: "error + PlaygroundState \<Rightarrow> string option \<times> BlockType option" where
  "gesture_after r =
     (case r of
        Inl (UndefinedBlock b) \<Rightarrow> (broken_activeId b, broken_draggedType b)
      | Inr s \<Rightarrow> (activeId s, draggedType s))"

section \<open>Facts about the array primitives\<close>

lemma findIndex_lower: "- 1 \<le> findIndex p xs"
  by (induction xs) (auto simp: Let_def)

lemma findIndex_upper: "findIndex p xs < int (length xs)"
  by (induction xs) (auto simp: Let_def)

lemma findIndex_absent: "(findIndex p xs < 0) = (\<forall>x\<in>set xs. \<not> p x)"
  using findIndex_lower [of p] by (induction xs) (auto simp: Let_def)

lemma findIndex_first:
  "i < length xs \<Longrightarrow> p (xs ! i) \<Longrightarrow> \<forall>k<i. \<not> p (xs ! k) \<Longrightarrow> findIndex p xs = int i"
proof (induction xs arbitrary: i)
  case Nil
  then show ?case by simp
next
  case (Cons x xs)
  show ?case
  proof (cases i)
    case 0
    with Cons.prems show ?thesis by simp
  next
    case (Suc m)
    from Cons.prems Suc have np: "\<not> p x" by auto
    from Cons.prems Suc have m: "m < length xs" "p (xs ! m)" by auto
    from Cons.prems Suc have "\<forall>k<m. \<not> p (xs ! k)" by auto
    with m Cons.IH have "findIndex p xs = int m" by blast
    with np Suc show ?thesis by (simp add: Let_def)
  qed
qed

lemma those_map_Some: "those (map Some xs) = Some xs"
  by (induction xs) auto

lemma splice_remove_one:
  "k < length ys \<Longrightarrow> splice_start from (length ys) = k \<Longrightarrow>
   splice ys from 1 [] = ([ys ! k], removeAt k ys)"
  by (simp add: splice_def removeAt_def Let_def take_Suc_conv_app_nth [of 0] hd_drop_conv_nth
      min_def drop_Suc take_Suc)

lemma splice_insert_one:
  "splice_start dest (length ys) = p \<Longrightarrow> snd (splice ys dest 0 [x]) = insertAt p x ys"
  by (simp add: splice_def insertAt_def Let_def)

lemma arrayMove_wrap:
  assumes "xs \<noteq> []" "- 1 \<le> from" "from < int (length xs)" "- 1 \<le> to" "to < int (length xs)"
  shows "arrayMove xs from to =
         map Some (stable_move (wrap_index from (length xs)) (wrap_index to (length xs)) xs)"
proof -
  let ?n = "length xs"
  let ?k = "wrap_index from ?n"
  let ?p = "wrap_index to ?n"
  let ?dest = "if to < 0 then int ?n + to else to"
  from assms have n: "0 < ?n" by simp
  from assms n have k: "?k < ?n" by (auto simp: wrap_index_def)
  from assms n have kk: "splice_start from (length (map Some xs)) = ?k"
    by (auto simp: splice_start_def wrap_index_def)
  from k have len: "length (removeAt ?k (map Some xs)) = ?n - 1"
    by (simp add: removeAt_def)
  from assms n have pp: "splice_start ?dest (?n - 1) = min ?p (?n - 1)"
    by (auto simp: splice_start_def wrap_index_def)
  from assms n have "?p \<le> ?n - 1" by (auto simp: wrap_index_def)
  with pp have pp': "splice_start ?dest (?n - 1) = ?p" by simp
  have rm: "splice (map Some xs) from 1 [] = ([Some (xs ! ?k)], removeAt ?k (map Some xs))"
    using splice_remove_one [of ?k "map Some xs" "from"] k kk by simp
  have "splice_start ?dest (length (removeAt ?k (map Some xs))) = ?p"
    using pp' len by simp
  then have ins: "snd (splice (removeAt ?k (map Some xs)) ?dest 0 [Some (xs ! ?k)]) =
                  insertAt ?p (Some (xs ! ?k)) (removeAt ?k (map Some xs))"
    by (rule splice_insert_one)
  have "arrayMove xs from to = insertAt ?p (Some (xs ! ?k)) (removeAt ?k (map Some xs))"
    by (simp only: arrayMove_def Let_def length_map rm prod.case list.case ins)
  then show ?thesis
    by (simp add: stable_move_def insertAt_def removeAt_def take_map drop_map)
qed

lemma mset_removeAt: "k < length xs \<Longrightarrow> add_mset (xs ! k) (mset (removeAt k xs)) = mset xs"
proof -
  assume k: "k < length xs"
  have "mset xs = mset (take k xs @ xs ! k # drop (Suc k) xs)"
    using id_take_nth_drop [OF k] by simp
  then show ?thesis by (simp add: removeAt_def)
qed

lemma mset_insertAt: "mset (insertAt p x ys) = add_mset x (mset ys)"
proof -
  have "mset (take p ys) + mset (drop p ys) = mset ys"
    by (metis append_take_drop_id mset_append)
  then show ?thesis by (simp add: insertAt_def)
qed

lemma mset_stable_move: "i < length xs \<Longrightarrow> mset (stable_move i j xs) = mset xs"
  by (simp add: stable_move_def mset_insertAt mset_removeAt)

lemma length_stable_move: "i < length xs \<Longrightarrow> length (stable_move i j xs) = length xs"
  using mset_stable_move [of i xs j] by (metis size_mset)

lemma nth_stable_move: "i < length xs \<Longrightarrow> j < length xs \<Longrightarrow> stable_move i j xs ! j = xs ! i"
  by (simp add: stable_move_def insertAt_def removeAt_def nth_append min_def)

lemma removeAt_insertAt: "j \<le> length zs \<Longrightarrow> removeAt j (insertAt j x zs) = zs"
  by (simp add: removeAt_def insertAt_def)

lemma removeAt_stable_move:
  "i < length xs \<Longrightarrow> j < length xs \<Longrightarrow> removeAt j (stable_move i j xs) = removeAt i xs"
proof -
  assume a: "i < length xs" "j < length xs"
  then have "j \<le> length (removeAt i xs)" by (simp add: removeAt_def)
  then show ?thesis unfolding stable_move_def by (rule removeAt_insertAt)
qed

section \<open>Facts about the statistics and the handlers\<close>

lemma foldl_tokens: "foldl (\<lambda>acc msg. acc + tokens msg) a ms = a + sum_list (map tokens ms)"
  by (induction ms arbitrary: a) auto

lemma totalTokens_sum_list: "totalTokens ms = sum_list (map tokens ms)"
  by (simp add: totalTokens_def foldl_tokens)

lemma totalTokens_mset: "mset xs = mset ys \<Longrightarrow> totalTokens xs = totalTokens ys"
proof -
  assume "mset xs = mset ys"
  then have "sum_mset (image_mset tokens (mset xs)) = sum_mset (image_mset tokens (mset ys))"
    by simp
  then show ?thesis by (simp add: totalTokens_sum_list sum_mset_sum_list [symmetric])
qed

lemma position_less: "items \<noteq> [] \<Longrightarrow> position ident items < length items"
  using findIndex_upper [of "\<lambda>i. id_blk i = ident" items]
  by (auto simp: position_def wrap_index_def)

lemma position_first:
  "i < length items \<Longrightarrow> id_blk (items ! i) = ident \<Longrightarrow> \<forall>k<i. id_blk (items ! k) \<noteq> ident \<Longrightarrow>
   position ident items = i"
  using findIndex_first [of i items "\<lambda>b. id_blk b = ident"]
  by (simp add: position_def wrap_index_def)

lemma position_absent: "ident \<notin> id_blk ` set items \<Longrightarrow> position ident items = length items - 1"
  using findIndex_absent [of "\<lambda>i. id_blk i = ident" items]
  by (auto simp: position_def wrap_index_def)

lemma reorder_nonempty:
  assumes "items \<noteq> []"
  shows "those (reorder a b items) =
         Some (stable_move (position a items) (position b items) items)"
  using arrayMove_wrap [OF assms findIndex_lower findIndex_upper findIndex_lower findIndex_upper,
      of "\<lambda>i. id_blk i = a" "\<lambda>i. id_blk i = b"]
  by (simp add: reorder_def position_def Let_def those_map_Some)

lemma reorder_empty: "reorder a b [] = [None]"
  by (simp add: reorder_def arrayMove_def splice_def splice_start_def)

lemma handleDragEnd_cancel: "over ev = None \<Longrightarrow> handleDragEnd nid rnd ev s = Inr (idle s)"
  by (simp add: handleDragEnd_def idle_def)

lemma handleDragEnd_source:
  "over ev = Some ov \<Longrightarrow> is_source (active ev) \<Longrightarrow>
   handleDragEnd nid rnd ev s =
   Inr ((idle s)\<lparr>messages := messages s @ [newBlock nid rnd (type_data (the (data_current (active ev))))]\<rparr>)"
  by (simp add: handleDragEnd_def idle_def)

lemma handleDragEnd_self:
  "over ev = Some ov \<Longrightarrow> \<not> is_source (active ev) \<Longrightarrow> id_act (active ev) = id_over ov \<Longrightarrow>
   handleDragEnd nid rnd ev s = Inr (idle s)"
  by (simp add: handleDragEnd_def idle_def)

lemma handleDragEnd_reorder:
  "over ev = Some ov \<Longrightarrow> \<not> is_source (active ev) \<Longrightarrow> id_act (active ev) \<noteq> id_over ov \<Longrightarrow>
   messages s \<noteq> [] \<Longrightarrow>
   handleDragEnd nid rnd ev s =
   Inr ((idle s)\<lparr>messages := stable_move (position (id_act (active ev)) (messages s))
                                (position (id_over ov) (messages s)) (messages s)\<rparr>)"
  by (simp add: handleDragEnd_def idle_def reorder_nonempty)

lemma handleDragEnd_reorder_empty:
  "over ev = Some ov \<Longrightarrow> \<not> is_source (active ev) \<Longrightarrow> id_act (active ev) \<noteq> id_over ov \<Longrightarrow>
   messages s = [] \<Longrightarrow>
   handleDragEnd nid rnd ev s =
   Inl (UndefinedBlock \<lparr>broken_messages = [None], broken_activeId = None,
                        broken_draggedType = None\<rparr>)"
  by (simp add: handleDragEnd_def reorder_empty)

lemma handleDragEnd_gesture: "gesture_after (handleDragEnd nid rnd ev s) = (None, None)"
  by (simp add: handleDragEnd_def gesture_after_def Let_def split: option.split)

lemma handleDragEnd_Inr:
  assumes "handleDragEnd nid rnd ev s = Inr s'"
  shows "activeId s' = None \<and> draggedType s' = None \<and>
         (mset (messages s') = mset (messages s) \<or>
          messages s' = messages s @ [newBlock nid rnd (type_data (the (data_current (active ev))))])"
proof (cases "over ev")
  case None
  with assms show ?thesis by (auto simp: handleDragEnd_cancel idle_def)
next
  case (Some ov)
  show ?thesis
  proof (cases "is_source (active ev)")
    case True
    with Some assms show ?thesis by (auto simp: handleDragEnd_source idle_def)
  next
    case False
    show ?thesis
    proof (cases "id_act (active ev) = id_over ov")
      case True
      with Some False assms show ?thesis by (auto simp: handleDragEnd_self idle_def)
    next
      case ne: False
      show ?thesis
      proof (cases "messages s = []")
        case True
        with Some False ne assms show ?thesis by (simp add: handleDragEnd_reorder_empty)
      next
        case ms: False
        from position_less [OF ms] have "position (id_act (active ev)) (messages s) < length (messages s)" .
        then have "mset (stable_move (position (id_act (active ev)) (messages s))
                     (position (id_over ov) (messages s)) (messages s)) = mset (messages s)"
          by (rule mset_stable_move)
        with Some False ne ms assms show ?thesis
          by (auto simp: handleDragEnd_reorder idle_def)
      qed
    qed
  qed
qed

lemma idle_handleDragStart: "idle (handleDragStart st s) = idle s"
  by (simp add: idle_def handleDragStart_def Let_def)

text \<open>
  The rounded product: \<open>round_even\<close> is within half a unit of the last place of the
  exact quotient, and the floor of the rounded product of a double below 1 is below 20.
\<close>

lemma excess_bits_step: "\<not> n < 2 ^ 53 \<Longrightarrow> excess_bits n = Suc (excess_bits (n div 2))"
  by (subst excess_bits.simps) simp

lemma excess_bits_stop: "n < 2 ^ 53 \<Longrightarrow> excess_bits n = 0"
  by (subst excess_bits.simps) simp

lemma excess_bits_le: "n < 2 ^ 53 * 2 ^ j \<Longrightarrow> excess_bits n \<le> j"
proof (induction j arbitrary: n)
  case 0
  then show ?case by (simp add: excess_bits.simps)
next
  case (Suc j)
  show ?case
  proof (cases "n < 2 ^ 53")
    case True
    then show ?thesis by (simp add: excess_bits.simps)
  next
    case False
    from Suc.prems have "n < (2 ^ 53 * 2 ^ j) * 2" by (simp only: power_Suc mult_ac)
    then have "n div 2 < 2 ^ 53 * 2 ^ j" by (rule less_mult_imp_div_less)
    then have "excess_bits (n div 2) \<le> j" by (rule Suc.IH)
    with False show ?thesis by (subst excess_bits.simps) simp
  qed
qed

lemma round_even_cases:
  obtains (up) "round_even n k = n div 2 ^ k + 1" and "2 ^ k \<le> 2 * (n mod 2 ^ k)"
  | (down) "round_even n k = n div 2 ^ k" and "2 * (n mod 2 ^ k) \<le> 2 ^ k"
proof (cases "2 ^ k < 2 * (n mod 2 ^ k) \<or> (2 * (n mod 2 ^ k) = 2 ^ k \<and> odd (n div 2 ^ k))")
  case True
  then have "round_even n k = n div 2 ^ k + 1" by (simp add: round_even_def Let_def)
  moreover from True have "2 ^ k \<le> 2 * (n mod 2 ^ k)" by auto
  ultimately show ?thesis by (rule up)
next
  case False
  then have "round_even n k = n div 2 ^ k" by (simp add: round_even_def Let_def)
  moreover from False have "2 * (n mod 2 ^ k) \<le> 2 ^ k" by auto
  ultimately show ?thesis by (rule down)
qed

lemma round_even_upper: "2 * (round_even n k * 2 ^ k) \<le> 2 * n + 2 ^ k"
proof -
  define P :: nat where "P = 2 ^ k"
  define q where "q = n div P"
  define r where "r = n mod P"
  have n: "n = q * P + r" by (simp add: q_def r_def div_mult_mod_eq)
  have s: "(q + 1) * P = q * P + P" by simp
  show ?thesis
  proof (cases rule: round_even_cases [of n k])
    case up
    then have "round_even n k * 2 ^ k = q * P + P" and "P \<le> 2 * r"
      using s by (simp_all only: P_def q_def r_def)
    with n show ?thesis unfolding P_def [symmetric] by linarith
  next
    case down
    then have "round_even n k * 2 ^ k = q * P"
      by (simp only: P_def q_def)
    with n show ?thesis unfolding P_def [symmetric] by linarith
  qed
qed

lemma round_even_lower: "2 * n \<le> 2 * (round_even n k * 2 ^ k) + 2 ^ k"
proof -
  define P :: nat where "P = 2 ^ k"
  define q where "q = n div P"
  define r where "r = n mod P"
  have n: "n = q * P + r" by (simp add: q_def r_def div_mult_mod_eq)
  have r: "r < P" by (simp add: r_def P_def)
  have s: "(q + 1) * P = q * P + P" by simp
  show ?thesis
  proof (cases rule: round_even_cases [of n k])
    case up
    then have "round_even n k * 2 ^ k = q * P + P"
      using s by (simp only: P_def q_def)
    with n r show ?thesis unfolding P_def [symmetric] by linarith
  next
    case down
    then have "round_even n k * 2 ^ k = q * P" and "2 * r \<le> P"
      by (simp_all only: P_def q_def r_def)
    with n show ?thesis unfolding P_def [symmetric] by linarith
  qed
qed

lemma floor_times20_less:
  assumes "unit_double d"
  shows "floor_double (times20 d) < 20"
proof -
  let ?n = "20 * mantissa d"
  let ?k = "excess_bits ?n"
  let ?q = "round_even ?n ?k"
  let ?D = "nat (- exponent d)"
  from assms have m: "mantissa d < 2 ^ 53" and D: "53 \<le> ?D" and e: "exponent d \<le> - 53"
    by (auto simp: unit_double_def)
  from m have "?n < 2 ^ 53 * 2 ^ 5" by simp
  then have k: "?k \<le> 5" by (rule excess_bits_le)
  then have "(2::nat) ^ ?k \<le> 2 ^ 5" by (rule power_increasing) simp
  then have p: "(2::nat) ^ ?k \<le> 32" by simp
  from m have "2 * ?n + 40 \<le> 40 * 2 ^ 53" by simp
  with round_even_upper [of ?n ?k] p have "2 * (?q * 2 ^ ?k) < 40 * 2 ^ 53" by linarith
  then have a: "?q * 2 ^ ?k < 20 * 2 ^ 53" by linarith
  from D have "(2::nat) ^ 53 \<le> 2 ^ ?D" by (rule power_increasing) simp
  with a have b: "?q * 2 ^ ?k < 20 * 2 ^ ?D" by linarith
  from k D have kD: "?k \<le> ?D" by simp
  then have "(2::nat) ^ ?D = 2 ^ ?k * 2 ^ (?D - ?k)" by (simp add: power_add [symmetric])
  with b have "?q * 2 ^ ?k < (20 * 2 ^ (?D - ?k)) * 2 ^ ?k" by (simp add: mult.commute mult.left_commute)
  then have c: "?q < 20 * 2 ^ (?D - ?k)" by simp
  from e k have neg: "\<not> 0 \<le> exponent d + int ?k" by simp
  from e k have ex: "nat (- (exponent d + int ?k)) = ?D - ?k" by simp
  have "floor_double (times20 d) = ?q div 2 ^ (?D - ?k)"
    using neg ex by (simp add: floor_double_def times20_def Let_def)
  also from c have "\<dots> < 20" by (simp add: less_mult_imp_div_less)
  finally show ?thesis .
qed

lemma stable_move_to_end:
  "i < length xs \<Longrightarrow> stable_move i (length xs - 1) xs = removeAt i xs @ [xs ! i]"
proof -
  assume "i < length xs"
  then have "length (removeAt i xs) = length xs - 1" by (simp add: removeAt_def)
  then show ?thesis by (simp add: stable_move_def insertAt_def)
qed

lemma stable_move_from_end:
  "xs \<noteq> [] \<Longrightarrow> stable_move (length xs - 1) j xs = insertAt j (last xs) (butlast xs)"
  by (simp add: stable_move_def removeAt_def last_conv_nth butlast_conv_take)

lemma handleDelete_absent: "u \<notin> id_blk ` set (messages s) \<Longrightarrow> handleDelete u s = s"
proof -
  assume "u \<notin> id_blk ` set (messages s)"
  then have "filter (\<lambda>m. id_blk m \<noteq> u) (messages s) = messages s"
    by (auto simp: filter_id_conv)
  then show ?thesis by (simp add: handleDelete_def)
qed

lemma distinct_ids_handleDragEnd:
  assumes "distinct (map id_blk (messages s))" and "nid \<notin> id_blk ` set (messages s)"
    and "handleDragEnd nid rnd ev s = Inr s'"
  shows "distinct (map id_blk (messages s'))"
proof -
  from handleDragEnd_Inr [OF assms(3)]
  consider "mset (messages s') = mset (messages s)"
    | "messages s' = messages s @ [newBlock nid rnd (type_data (the (data_current (active ev))))]"
    by blast
  then show ?thesis
  proof cases
    case 1
    then have "mset (map id_blk (messages s')) = mset (map id_blk (messages s))" by simp
    then show ?thesis using assms(1) by (metis mset_eq_imp_distinct_iff)
  next
    case 2
    with assms(1,2) show ?thesis by (simp add: newBlock_def)
  qed
qed

section \<open>The claims\<close>

text \<open>
  C2. In every state the total shown is the sum of the token costs of the blocks that are
  in the sequence, and the usage ratio (the displayed percentage over 100) is that total
  divided by 4096. Both are functions of the sequence alone: the state has no cell for
  them, so there is nothing to patch.
\<close>

theorem aggregate_consistency:
  "totalTokens (messages s) = sum_list (map tokens (messages s)) \<and>
   usagePercent (messages s) / 100 = real (totalTokens (messages s)) / 4096"
  by (simp add: totalTokens_sum_list usagePercent_def maxContext_def)

theorem aggregate_consistency_witness:
  "totalTokens (messages initialState) = 7 \<and> usagePercent (messages initialState) / 100 = 7 / 4096"
  using aggregate_consistency [of initialState]
  by (simp add: initialState_def INITIAL_BLOCKS_def)

text \<open>
  C8. From any state, reset leaves a sequence of length one whose only element is the
  initial system block (id system-1, kind system, content "You are a helpful AI
  assistant.", 7 tokens), and the total is then 7.
\<close>

theorem reset_determinism:
  "messages (reset s) =
     [\<lparr>id_blk = ''system-1'', type_blk = System,
       content = ''You are a helpful AI assistant.'', tokens = 7\<rparr>] \<and>
   length (messages (reset s)) = 1 \<and>
   totalTokens (messages (reset s)) = 7"
  by (simp add: reset_def INITIAL_BLOCKS_def totalTokens_def)

text \<open>
  C6. A drag-end of a block of the list whose target id equals its own id leaves the
  sequence as it was: the same blocks in the same order.
\<close>

theorem move_self_noop:
  "over ev = Some ov \<Longrightarrow> \<not> is_source (active ev) \<Longrightarrow> id_act (active ev) = id_over ov \<Longrightarrow>
   handleDragEnd nid rnd ev s = Inr (idle s) \<and> messages (idle s) = messages s"
  by (simp add: handleDragEnd_self idle_def)

theorem move_self_noop_witness:
  "handleDragEnd ''n'' zero_double
     \<lparr>active = sortableActive ''system-1'', over = Some \<lparr>id_over = ''system-1''\<rparr>\<rparr> initialState
   = Inr initialState"
  using move_self_noop [of "\<lparr>active = sortableActive ''system-1'', over = Some \<lparr>id_over = ''system-1''\<rparr>\<rparr>"
      "\<lparr>id_over = ''system-1''\<rparr>" "''n''" zero_double initialState]
  by (simp add: sortableActive_def is_source_def idle_def initialState_def)

text \<open>
  C4. A drag-end of a palette entry of kind \<open>kind\<close> over any droppable appends one block:
  the sequence grows by exactly one, the new block is the last element, the blocks that
  were there keep their positions and fields, the content of the new block is the fixed
  text of its kind, and its token cost is between 5 and 24, for every double below 1
  that \<open>Math.random()\<close> may return.
\<close>

theorem palette_drop_appends:
  assumes "over ev = Some ov" and "is_source (active ev)"
    and "type_data (the (data_current (active ev))) = kind"
    and "unit_double rnd"
  shows "\<exists>s'. handleDragEnd nid rnd ev s = Inr s' \<and>
           length (messages s') = length (messages s) + 1 \<and>
           last (messages s') = newBlock nid rnd kind \<and>
           take (length (messages s)) (messages s') = messages s \<and>
           type_blk (newBlock nid rnd kind) = kind \<and>
           content (newBlock nid rnd kind) =
             (case kind of User \<Rightarrow> ''Can you explain quantum computing simply?''
              | Assistant \<Rightarrow> ''Quantum computing uses quantum bits or qubits...''
              | System \<Rightarrow> ''You are an expert in physics.'') \<and>
           5 \<le> tokens (newBlock nid rnd kind) \<and> tokens (newBlock nid rnd kind) \<le> 24"
proof -
  let ?s' = "(idle s)\<lparr>messages := messages s @ [newBlock nid rnd kind]\<rparr>"
  from assms have run: "handleDragEnd nid rnd ev s = Inr ?s'"
    by (simp add: handleDragEnd_source)
  have text_of: "content (newBlock nid rnd kind) =
             (case kind of User \<Rightarrow> ''Can you explain quantum computing simply?''
              | Assistant \<Rightarrow> ''Quantum computing uses quantum bits or qubits...''
              | System \<Rightarrow> ''You are an expert in physics.'')"
    by (cases kind) (simp_all add: newBlock_def)
  from floor_times20_less [OF assms(4)]
  have cost: "5 \<le> tokens (newBlock nid rnd kind) \<and> tokens (newBlock nid rnd kind) \<le> 24"
    by (simp add: newBlock_def)
  have kind_of: "type_blk (newBlock nid rnd kind) = kind"
    by (simp add: newBlock_def)
  from run text_of cost kind_of show ?thesis by simp
qed

theorem palette_drop_appends_witness:
  "unit_double \<lparr>mantissa = 8556839292003942, exponent = - 53\<rparr> \<and>
   (\<exists>s'. handleDragEnd ''V1StGXR8_Z5jdHi6B-myT'' \<lparr>mantissa = 8556839292003942, exponent = - 53\<rparr>
          \<lparr>active = sourceActive User, over = Some \<lparr>id_over = ''system-1''\<rparr>\<rparr> initialState = Inr s' \<and>
        length (messages s') = 2 \<and>
        last (messages s') =
          \<lparr>id_blk = ''V1StGXR8_Z5jdHi6B-myT'', type_blk = User,
           content = ''Can you explain quantum computing simply?'', tokens = 24\<rparr> \<and>
        take 1 (messages s') = INITIAL_BLOCKS)"
proof -
  let ?ev = "\<lparr>active = sourceActive User, over = Some \<lparr>id_over = ''system-1''\<rparr>\<rparr>"
  let ?rnd = "\<lparr>mantissa = 8556839292003942, exponent = - 53\<rparr>"
  have h1: "over ?ev = Some \<lparr>id_over = ''system-1''\<rparr>" by simp
  have h2: "is_source (active ?ev)" by (simp add: is_source_def sourceActive_def)
  have h3: "type_data (the (data_current (active ?ev))) = User" by (simp add: sourceActive_def)
  have h4: "unit_double ?rnd" by (simp add: unit_double_def)
  have cost: "floor_double (times20 ?rnd) = 19"
    by (simp add: floor_double_def times20_def round_even_def Let_def
        excess_bits_step excess_bits_stop)
  from palette_drop_appends [OF h1 h2 h3 h4, of "''V1StGXR8_Z5jdHi6B-myT''" initialState]
  have "\<exists>s'. handleDragEnd ''V1StGXR8_Z5jdHi6B-myT'' ?rnd ?ev initialState = Inr s' \<and>
          length (messages s') = 2 \<and>
          last (messages s') =
            \<lparr>id_blk = ''V1StGXR8_Z5jdHi6B-myT'', type_blk = User,
             content = ''Can you explain quantum computing simply?'', tokens = 24\<rparr> \<and>
          take 1 (messages s') = INITIAL_BLOCKS"
    using cost by (auto simp: newBlock_def initialState_def INITIAL_BLOCKS_def)
  with h4 show ?thesis by blast
qed

text \<open>
  C7. A drag-start followed by a drag-end with no drop target leaves the sequence, the
  total and the usage percentage as they were before the drag-start, and both gesture
  cells are empty afterwards. After every drag-end, from every state and for every
  event, both gesture cells are empty: also when the sequence changed, and also when
  the drag-end left an array holding \<open>undefined\<close>.
\<close>

theorem cancellation_purity:
  "(over ev = None \<longrightarrow>
      handleDragEnd nid rnd ev (handleDragStart st s) = Inr (idle s) \<and>
      messages (idle s) = messages s \<and>
      totalTokens (messages (idle s)) = totalTokens (messages s) \<and>
      usagePercent (messages (idle s)) = usagePercent (messages s) \<and>
      activeId (idle s) = None \<and> draggedType (idle s) = None) \<and>
   gesture_after (handleDragEnd nid rnd ev s) = (None, None)"
proof (intro conjI impI)
  assume "over ev = None"
  then show "handleDragEnd nid rnd ev (handleDragStart st s) = Inr (idle s)"
    by (simp add: handleDragEnd_cancel idle_handleDragStart)
next
  show "messages (idle s) = messages s" by (simp add: idle_def)
  then show "totalTokens (messages (idle s)) = totalTokens (messages s)" by simp
next
  show "usagePercent (messages (idle s)) = usagePercent (messages s)" by (simp add: idle_def)
next
  show "activeId (idle s) = None" by (simp add: idle_def)
next
  show "draggedType (idle s) = None" by (simp add: idle_def)
next
  show "gesture_after (handleDragEnd nid rnd ev s) = (None, None)"
    by (rule handleDragEnd_gesture)
qed

theorem cancellation_purity_witness:
  "handleDragEnd ''n'' zero_double \<lparr>active = sourceActive User, over = None\<rparr>
     (handleDragStart \<lparr>active = sourceActive User\<rparr> initialState) = Inr initialState \<and>
   activeId (handleDragStart \<lparr>active = sourceActive User\<rparr> initialState) = Some ''source-user'' \<and>
   draggedType (handleDragStart \<lparr>active = sourceActive User\<rparr> initialState) = Some User \<and>
   gesture_after (handleDragEnd ''n'' zero_double \<lparr>active = sourceActive User, over = None\<rparr>
     initialState) = (None, None)"
  using cancellation_purity [of "\<lparr>active = sourceActive User, over = None\<rparr>" "''n''" zero_double
      "\<lparr>active = sourceActive User\<rparr>" initialState]
  by (simp add: idle_def initialState_def handleDragStart_def sourceActive_def is_source_def)

text \<open>
  C9. On a non-empty sequence a drag-end of a block of the list over any droppable, with
  any two ids, present or not, yields a state whose sequence is a permutation of the
  old one: the multiset of blocks and the total are the same.
\<close>

theorem reorder_permutes:
  assumes "messages s \<noteq> []" and "over ev = Some ov" and "\<not> is_source (active ev)"
  shows "\<exists>s'. handleDragEnd nid rnd ev s = Inr s' \<and>
           mset (messages s') = mset (messages s) \<and>
           totalTokens (messages s') = totalTokens (messages s)"
proof (cases "id_act (active ev) = id_over ov")
  case True
  with assms have "handleDragEnd nid rnd ev s = Inr (idle s)"
    by (simp add: handleDragEnd_self)
  moreover have "messages (idle s) = messages s" by (simp add: idle_def)
  ultimately show ?thesis by simp
next
  case False
  let ?ms = "stable_move (position (id_act (active ev)) (messages s))
               (position (id_over ov) (messages s)) (messages s)"
  from assms False have run: "handleDragEnd nid rnd ev s = Inr ((idle s)\<lparr>messages := ?ms\<rparr>)"
    by (simp add: handleDragEnd_reorder)
  from position_less [OF assms(1)] have perm: "mset ?ms = mset (messages s)"
    by (rule mset_stable_move)
  then have "totalTokens ?ms = totalTokens (messages s)" by (rule totalTokens_mset)
  with run perm show ?thesis by simp
qed

theorem reorder_permutes_witness:
  "\<exists>s'. handleDragEnd ''n'' zero_double
          \<lparr>active = sortableActive ''ghost'', over = Some \<lparr>id_over = ''nowhere''\<rparr>\<rparr> initialState = Inr s' \<and>
        mset (messages s') = mset INITIAL_BLOCKS \<and> totalTokens (messages s') = 7"
proof -
  let ?ev = "\<lparr>active = sortableActive ''ghost'', over = Some \<lparr>id_over = ''nowhere''\<rparr>\<rparr>"
  have h1: "messages initialState \<noteq> []" by (simp add: initialState_def INITIAL_BLOCKS_def)
  have h2: "over ?ev = Some \<lparr>id_over = ''nowhere''\<rparr>" by simp
  have h3: "\<not> is_source (active ?ev)" by (simp add: is_source_def sortableActive_def)
  from reorder_permutes [OF h1 h2 h3, of "''n''" zero_double]
  show ?thesis by (simp add: initialState_def INITIAL_BLOCKS_def totalTokens_def)
qed

text \<open>
  C3. Let \<open>src\<close> and \<open>tgt\<close> be two different ids that occur in the sequence, first at the
  indices \<open>i\<close> and \<open>j\<close>. A drag-end of the block \<open>src\<close> over \<open>tgt\<close> takes the block out
  of index \<open>i\<close> and puts it back so that it stands at index \<open>j\<close>, the index of \<open>tgt\<close>
  before the removal; the other blocks keep their order. The multiset of blocks and
  the total are unchanged.
\<close>

theorem move_is_stable_array_move:
  assumes "over ev = Some ov" and "\<not> is_source (active ev)"
    and "id_act (active ev) = src" and "id_over ov = tgt" and "src \<noteq> tgt"
    and "i < length (messages s)" and "id_blk (messages s ! i) = src"
    and "\<forall>k<i. id_blk (messages s ! k) \<noteq> src"
    and "j < length (messages s)" and "id_blk (messages s ! j) = tgt"
    and "\<forall>k<j. id_blk (messages s ! k) \<noteq> tgt"
  shows "\<exists>s'. handleDragEnd nid rnd ev s = Inr s' \<and>
           messages s' = stable_move i j (messages s) \<and>
           length (messages s') = length (messages s) \<and>
           messages s' ! j = messages s ! i \<and>
           removeAt j (messages s') = removeAt i (messages s) \<and>
           mset (messages s') = mset (messages s) \<and>
           totalTokens (messages s') = totalTokens (messages s)"
proof -
  let ?ms = "stable_move i j (messages s)"
  from assms(6) have ne: "messages s \<noteq> []" by auto
  from assms(6,7,8) have pi: "position src (messages s) = i" by (rule position_first)
  from assms(9,10,11) have pj: "position tgt (messages s) = j" by (rule position_first)
  from assms(1,2,3,4,5) ne pi pj
  have run: "handleDragEnd nid rnd ev s = Inr ((idle s)\<lparr>messages := ?ms\<rparr>)"
    by (simp add: handleDragEnd_reorder)
  from assms(6) have perm: "mset ?ms = mset (messages s)" by (rule mset_stable_move)
  then have total: "totalTokens ?ms = totalTokens (messages s)" by (rule totalTokens_mset)
  from assms(6) have len: "length ?ms = length (messages s)" by (rule length_stable_move)
  from assms(6,9) have at: "?ms ! j = messages s ! i" by (rule nth_stable_move)
  from assms(6,9) have rest: "removeAt j ?ms = removeAt i (messages s)"
    by (rule removeAt_stable_move)
  from run perm total len at rest show ?thesis by simp
qed

theorem move_is_stable_array_move_witness:
  "\<exists>s'. handleDragEnd ''n'' zero_double \<lparr>active = sortableActive ''a'', over = Some \<lparr>id_over = ''c''\<rparr>\<rparr>
          \<lparr>messages = [newBlock ''a'' zero_double User, newBlock ''b'' zero_double Assistant, newBlock ''c'' zero_double System],
           activeId = Some ''a'', draggedType = None\<rparr> = Inr s' \<and>
        messages s' = [newBlock ''b'' zero_double Assistant, newBlock ''c'' zero_double System, newBlock ''a'' zero_double User]"
proof -
  let ?ev = "\<lparr>active = sortableActive ''a'', over = Some \<lparr>id_over = ''c''\<rparr>\<rparr>"
  let ?s = "\<lparr>messages = [newBlock ''a'' zero_double User, newBlock ''b'' zero_double Assistant, newBlock ''c'' zero_double System],
            activeId = Some ''a'', draggedType = None\<rparr>"
  have h1: "over ?ev = Some \<lparr>id_over = ''c''\<rparr>" by simp
  have h2: "\<not> is_source (active ?ev)" by (simp add: is_source_def sortableActive_def)
  have h3: "id_act (active ?ev) = ''a''" by (simp add: sortableActive_def)
  have h4: "id_over \<lparr>id_over = ''c''\<rparr> = ''c''" by simp
  have h5: "''a'' \<noteq> ''c''" by simp
  have h6: "0 < length (messages ?s)" by simp
  have h7: "id_blk (messages ?s ! 0) = ''a''" by (simp add: newBlock_def)
  have h8: "\<forall>k<0. id_blk (messages ?s ! k) \<noteq> ''a''" by simp
  have h9: "2 < length (messages ?s)" by simp
  have h10: "id_blk (messages ?s ! 2) = ''c''" by (simp add: newBlock_def)
  have h11: "\<forall>k<2. id_blk (messages ?s ! k) \<noteq> ''c''"
    by (simp add: numeral_2_eq_2 All_less_Suc newBlock_def)
  from move_is_stable_array_move [OF h1 h2 h3 h4 h5 h6 h7 h8 h9 h10 h11, of "''n''" zero_double]
  obtain s' where "handleDragEnd ''n'' zero_double ?ev ?s = Inr s'"
    and "messages s' = stable_move 0 2 (messages ?s)" by blast
  then show ?thesis
    by (simp add: stable_move_def insertAt_def removeAt_def)
qed

text \<open>
  C5, as stated: in every state that the operations reach, no two blocks share an id.
  The handler appends the string that \<open>nanoid()\<close> returns without comparing it with
  the ids of the sequence. When \<open>nanoid()\<close> returns the same string at two palette
  drops, the state reached has two blocks of that id.
\<close>

theorem repeated_id_counterexample:
  "handleDragEnd ''V1StGXR8_Z5jdHi6B-myT'' half_double
     \<lparr>active = sourceActive User, over = Some \<lparr>id_over = ''system-1''\<rparr>\<rparr> initialState
   = Inr \<lparr>messages = INITIAL_BLOCKS @ [newBlock ''V1StGXR8_Z5jdHi6B-myT'' half_double User],
          activeId = None, draggedType = None\<rparr> \<and>
   handleDragEnd ''V1StGXR8_Z5jdHi6B-myT'' half_double
     \<lparr>active = sourceActive User, over = Some \<lparr>id_over = ''system-1''\<rparr>\<rparr>
     \<lparr>messages = INITIAL_BLOCKS @ [newBlock ''V1StGXR8_Z5jdHi6B-myT'' half_double User],
      activeId = None, draggedType = None\<rparr>
   = Inr \<lparr>messages = INITIAL_BLOCKS @ [newBlock ''V1StGXR8_Z5jdHi6B-myT'' half_double User,
                                        newBlock ''V1StGXR8_Z5jdHi6B-myT'' half_double User],
          activeId = None, draggedType = None\<rparr> \<and>
   reachable_any
     \<lparr>messages = INITIAL_BLOCKS @ [newBlock ''V1StGXR8_Z5jdHi6B-myT'' half_double User,
                                  newBlock ''V1StGXR8_Z5jdHi6B-myT'' half_double User],
      activeId = None, draggedType = None\<rparr> \<and>
   \<not> distinct (map id_blk (INITIAL_BLOCKS @ [newBlock ''V1StGXR8_Z5jdHi6B-myT'' half_double User,
                                            newBlock ''V1StGXR8_Z5jdHi6B-myT'' half_double User]))"
proof -
  let ?ev = "\<lparr>active = sourceActive User, over = Some \<lparr>id_over = ''system-1''\<rparr>\<rparr>"
  let ?b = "newBlock ''V1StGXR8_Z5jdHi6B-myT'' half_double User"
  let ?s1 = "\<lparr>messages = INITIAL_BLOCKS @ [?b], activeId = None, draggedType = None\<rparr>"
  let ?s2 = "\<lparr>messages = INITIAL_BLOCKS @ [?b, ?b], activeId = None, draggedType = None\<rparr>"
  have u: "unit_double half_double" by (simp add: unit_double_def half_double_def)
  have run1: "handleDragEnd ''V1StGXR8_Z5jdHi6B-myT'' half_double ?ev initialState = Inr ?s1"
    by (simp add: handleDragEnd_def initialState_def sourceActive_def is_source_def)
  have run2: "handleDragEnd ''V1StGXR8_Z5jdHi6B-myT'' half_double ?ev ?s1 = Inr ?s2"
    by (simp add: handleDragEnd_def sourceActive_def is_source_def)
  have r1: "reachable_any ?s1" by (rule any_end [OF any_init u run1])
  have r2: "reachable_any ?s2" by (rule any_end [OF r1 u run2])
  have dup: "\<not> distinct (map id_blk (INITIAL_BLOCKS @ [?b, ?b]))" by simp
  from run1 run2 r2 dup show ?thesis by (intro conjI)
qed

text \<open>
  C5, amended. In every state reached by operations at which each string that
  \<open>nanoid()\<close> returned was not the id of a block of the sequence at that moment (the
  relation \<open>reachable\<close>), no two blocks of the sequence have the same id.
\<close>

theorem ids_unique: "reachable s \<Longrightarrow> distinct (map id_blk (messages s))"
proof (induction rule: reachable.induct)
  case reach_init
  show ?case by (simp add: initialState_def INITIAL_BLOCKS_def)
next
  case (reach_start s event)
  then show ?case by (simp add: handleDragStart_def Let_def)
next
  case (reach_end s nid rnd event s')
  then show ?case using distinct_ids_handleDragEnd by blast
next
  case (reach_delete s ident)
  then show ?case by (simp add: handleDelete_def distinct_map_filter)
next
  case (reach_reset s)
  show ?case by (simp add: reset_def INITIAL_BLOCKS_def)
qed

theorem ids_unique_witness:
  "reachable ((idle initialState)\<lparr>messages :=
       INITIAL_BLOCKS @ [newBlock ''V1StGXR8_Z5jdHi6B-myT'' half_double User]\<rparr>) \<and>
   distinct [''system-1'', ''V1StGXR8_Z5jdHi6B-myT'']"
proof -
  let ?ev = "\<lparr>active = sourceActive User, over = Some \<lparr>id_over = ''system-1''\<rparr>\<rparr>"
  let ?s' = "(idle initialState)\<lparr>messages :=
       INITIAL_BLOCKS @ [newBlock ''V1StGXR8_Z5jdHi6B-myT'' half_double User]\<rparr>"
  have run: "handleDragEnd ''V1StGXR8_Z5jdHi6B-myT'' half_double ?ev initialState = Inr ?s'"
    by (simp add: handleDragEnd_def idle_def initialState_def sourceActive_def is_source_def)
  have fresh: "''V1StGXR8_Z5jdHi6B-myT'' \<notin> id_blk ` set (messages initialState)"
    by (simp add: initialState_def INITIAL_BLOCKS_def)
  have r: "reachable ?s'"
    by (rule reach_end [OF reach_init fresh _ run]) (simp add: unit_double_def half_double_def)
  from ids_unique [OF r] r show ?thesis
    by (simp add: INITIAL_BLOCKS_def newBlock_def)
qed

text \<open>
  C1, as stated: a remove or a reorder with an id that no block has leaves the sequence
  unchanged. The reorder does not: in the sequence of the initial block followed by a
  block \<open>u1\<close>, a drag-end whose source id \<open>ghost\<close> is unknown, over the initial block,
  moves \<open>u1\<close> to the front.
\<close>

theorem move_unknown_id_counterexample:
  "''ghost'' \<notin> id_blk ` set (INITIAL_BLOCKS @ [newBlock ''u1'' zero_double User]) \<and>
   handleDragEnd ''n'' zero_double
     \<lparr>active = sortableActive ''ghost'', over = Some \<lparr>id_over = ''system-1''\<rparr>\<rparr>
     \<lparr>messages = INITIAL_BLOCKS @ [newBlock ''u1'' zero_double User], activeId = None, draggedType = None\<rparr>
   = Inr \<lparr>messages = newBlock ''u1'' zero_double User # INITIAL_BLOCKS, activeId = None, draggedType = None\<rparr> \<and>
   newBlock ''u1'' zero_double User # INITIAL_BLOCKS \<noteq> INITIAL_BLOCKS @ [newBlock ''u1'' zero_double User]"
  by (simp add: handleDragEnd_def reorder_def arrayMove_def splice_def splice_start_def
      sortableActive_def is_source_def INITIAL_BLOCKS_def newBlock_def)

text \<open>
  C1, amended. Let \<open>u\<close> be an id that no block of the sequence has. Remove with \<open>u\<close>
  leaves the state unchanged. On a non-empty sequence a reorder with \<open>u\<close> yields a
  state, but \<open>findIndex\<close> returns \<open>-1\<close> for \<open>u\<close> and \<open>arrayMove\<close> reads it as the last
  index: with \<open>u\<close> as the target the source block is moved to the end, with \<open>u\<close> as the
  source the last block is moved to the index of the target.
\<close>

theorem unknown_id_behaviour:
  assumes "u \<notin> id_blk ` set (messages s)"
  shows "handleDelete u s = s \<and>
         (messages s \<noteq> [] \<and> over ev = Some ov \<and> \<not> is_source (active ev) \<and>
          id_act (active ev) \<noteq> id_over ov \<longrightarrow>
            (id_over ov = u \<longrightarrow>
               (\<exists>s'. handleDragEnd nid rnd ev s = Inr s' \<and>
                  messages s' = removeAt (position (id_act (active ev)) (messages s)) (messages s) @
                                [messages s ! position (id_act (active ev)) (messages s)])) \<and>
            (id_act (active ev) = u \<longrightarrow>
               (\<exists>s'. handleDragEnd nid rnd ev s = Inr s' \<and>
                  messages s' = insertAt (position (id_over ov) (messages s))
                                  (last (messages s)) (butlast (messages s)))))"
proof (intro conjI impI)
  from assms show "handleDelete u s = s" by (rule handleDelete_absent)
next
  assume a: "messages s \<noteq> [] \<and> over ev = Some ov \<and> \<not> is_source (active ev) \<and>
             id_act (active ev) \<noteq> id_over ov" and t: "id_over ov = u"
  let ?i = "position (id_act (active ev)) (messages s)"
  from a have i: "?i < length (messages s)" by (simp add: position_less)
  from assms t have "position (id_over ov) (messages s) = length (messages s) - 1"
    by (simp add: position_absent)
  with a have "handleDragEnd nid rnd ev s =
               Inr ((idle s)\<lparr>messages := stable_move ?i (length (messages s) - 1) (messages s)\<rparr>)"
    by (simp add: handleDragEnd_reorder)
  with stable_move_to_end [OF i]
  show "\<exists>s'. handleDragEnd nid rnd ev s = Inr s' \<and>
          messages s' = removeAt ?i (messages s) @ [messages s ! ?i]"
    by simp
next
  assume a: "messages s \<noteq> [] \<and> over ev = Some ov \<and> \<not> is_source (active ev) \<and>
             id_act (active ev) \<noteq> id_over ov" and t: "id_act (active ev) = u"
  let ?j = "position (id_over ov) (messages s)"
  from a have ne: "messages s \<noteq> []" by simp
  from assms t have "position (id_act (active ev)) (messages s) = length (messages s) - 1"
    by (simp add: position_absent)
  with a have "handleDragEnd nid rnd ev s =
               Inr ((idle s)\<lparr>messages := stable_move (length (messages s) - 1) ?j (messages s)\<rparr>)"
    by (simp add: handleDragEnd_reorder)
  with stable_move_from_end [OF ne]
  show "\<exists>s'. handleDragEnd nid rnd ev s = Inr s' \<and>
          messages s' = insertAt ?j (last (messages s)) (butlast (messages s))"
    by simp
qed

theorem unknown_id_behaviour_witness:
  "handleDelete ''ghost'' initialState = initialState \<and>
   (\<exists>s'. handleDragEnd ''n'' zero_double
            \<lparr>active = sortableActive ''a'', over = Some \<lparr>id_over = ''ghost''\<rparr>\<rparr>
            \<lparr>messages = [newBlock ''a'' zero_double User, newBlock ''b'' zero_double Assistant],
             activeId = None, draggedType = None\<rparr> = Inr s' \<and>
          messages s' = [newBlock ''b'' zero_double Assistant, newBlock ''a'' zero_double User])"
proof -
  let ?ev = "\<lparr>active = sortableActive ''a'', over = Some \<lparr>id_over = ''ghost''\<rparr>\<rparr>"
  let ?s = "\<lparr>messages = [newBlock ''a'' zero_double User, newBlock ''b'' zero_double Assistant],
            activeId = None, draggedType = None\<rparr>"
  have g1: "''ghost'' \<notin> id_blk ` set (messages initialState)"
    by (simp add: initialState_def INITIAL_BLOCKS_def)
  have g2: "''ghost'' \<notin> id_blk ` set (messages ?s)" by (simp add: newBlock_def)
  have pos: "position ''a'' (messages ?s) = 0"
    by (simp add: position_def wrap_index_def newBlock_def)
  have pre: "messages ?s \<noteq> [] \<and> over ?ev = Some \<lparr>id_over = ''ghost''\<rparr> \<and>
             \<not> is_source (active ?ev) \<and> id_act (active ?ev) \<noteq> id_over \<lparr>id_over = ''ghost''\<rparr>"
    by (simp add: sortableActive_def is_source_def)
  from unknown_id_behaviour [OF g1] have del: "handleDelete ''ghost'' initialState = initialState"
    by blast
  from unknown_id_behaviour [OF g2, of ?ev "\<lparr>id_over = ''ghost''\<rparr>" "''n''" zero_double] pre
  have "\<exists>s'. handleDragEnd ''n'' zero_double ?ev ?s = Inr s' \<and>
          messages s' = removeAt (position (id_act (active ?ev)) (messages ?s)) (messages ?s) @
                        [messages ?s ! position (id_act (active ?ev)) (messages ?s)]"
    by simp
  then have "\<exists>s'. handleDragEnd ''n'' zero_double ?ev ?s = Inr s' \<and>
          messages s' = [newBlock ''b'' zero_double Assistant, newBlock ''a'' zero_double User]"
    using pos by (simp add: sortableActive_def removeAt_def)
  with del show ?thesis by simp
qed

text \<open>
  C10, as stated: every operation stays well-defined on the empty sequence. The reorder
  does not: after the initial block is removed, a drag-end of a list item \<open>a\<close> over \<open>b\<close>
  calls \<open>arrayMove([], -1, -1)\<close>, which returns an array holding \<open>undefined\<close>.
\<close>

theorem reorder_on_empty_counterexample:
  "messages (handleDelete ''system-1'' initialState) = [] \<and>
   reorder ''a'' ''b'' (messages (handleDelete ''system-1'' initialState)) = [None] \<and>
   handleDragEnd ''n'' zero_double \<lparr>active = sortableActive ''a'', over = Some \<lparr>id_over = ''b''\<rparr>\<rparr>
     (handleDelete ''system-1'' initialState) =
   Inl (UndefinedBlock \<lparr>broken_messages = [None], broken_activeId = None,
                        broken_draggedType = None\<rparr>)"
  by (simp add: handleDragEnd_def reorder_def arrayMove_def splice_def splice_start_def
      sortableActive_def is_source_def handleDelete_def initialState_def INITIAL_BLOCKS_def)

text \<open>
  C10, amended. The empty sequence is reachable: remove deletes the last remaining
  block, the initial system block included. On the empty sequence the total is 0, a
  palette drop appends the new block as the only element, and remove and reset yield
  the empty sequence and the initial sequence.
\<close>

theorem empty_sequence_operations:
  "reachable (handleDelete ''system-1'' initialState) \<and>
   messages (handleDelete ''system-1'' initialState) = [] \<and>
   (messages s = [b] \<longrightarrow> messages (handleDelete (id_blk b) s) = []) \<and>
   totalTokens [] = 0 \<and>
   (messages s = [] \<and> over ev = Some ov \<and> is_source (active ev) \<longrightarrow>
      (\<exists>s'. handleDragEnd nid rnd ev s = Inr s' \<and>
         messages s' = [newBlock nid rnd (type_data (the (data_current (active ev))))])) \<and>
   (messages s = [] \<longrightarrow> messages (handleDelete u s) = [] \<and> messages (reset s) = INITIAL_BLOCKS)"
proof (intro conjI impI)
  show "reachable (handleDelete ''system-1'' initialState)"
    by (rule reach_delete [OF reach_init])
  show "messages (handleDelete ''system-1'' initialState) = []"
    by (simp add: handleDelete_def initialState_def INITIAL_BLOCKS_def)
  show "totalTokens [] = 0" by (simp add: totalTokens_def)
next
  assume "messages s = [b]"
  then show "messages (handleDelete (id_blk b) s) = []" by (simp add: handleDelete_def)
next
  assume "messages s = [] \<and> over ev = Some ov \<and> is_source (active ev)"
  then show "\<exists>s'. handleDragEnd nid rnd ev s = Inr s' \<and>
         messages s' = [newBlock nid rnd (type_data (the (data_current (active ev))))]"
    by (simp add: handleDragEnd_source)
next
  assume "messages s = []"
  then show "messages (handleDelete u s) = []" by (simp add: handleDelete_def)
next
  show "messages (reset s) = INITIAL_BLOCKS" by (simp add: reset_def)
qed

theorem empty_sequence_operations_witness:
  "\<exists>s'. handleDragEnd ''V1StGXR8_Z5jdHi6B-myT'' half_double
          \<lparr>active = sourceActive Assistant, over = Some \<lparr>id_over = ''zone''\<rparr>\<rparr>
          (handleDelete ''system-1'' initialState) = Inr s' \<and>
        messages s' =
          [\<lparr>id_blk = ''V1StGXR8_Z5jdHi6B-myT'', type_blk = Assistant,
            content = ''Quantum computing uses quantum bits or qubits...'', tokens = 15\<rparr>]"
proof -
  let ?ev = "\<lparr>active = sourceActive Assistant, over = Some \<lparr>id_over = ''zone''\<rparr>\<rparr>"
  let ?s = "handleDelete ''system-1'' initialState"
  have pre: "messages ?s = [] \<and> over ?ev = Some \<lparr>id_over = ''zone''\<rparr> \<and> is_source (active ?ev)"
    by (simp add: handleDelete_def initialState_def INITIAL_BLOCKS_def sourceActive_def is_source_def)
  from empty_sequence_operations [of ?s _ ?ev "\<lparr>id_over = ''zone''\<rparr>" "''V1StGXR8_Z5jdHi6B-myT''" half_double] pre
  have "\<exists>s'. handleDragEnd ''V1StGXR8_Z5jdHi6B-myT'' half_double ?ev ?s = Inr s' \<and>
         messages s' = [newBlock ''V1StGXR8_Z5jdHi6B-myT'' half_double
                          (type_data (the (data_current (active ?ev))))]"
    by blast
  moreover have "floor_double (times20 half_double) = 10"
    by (simp add: floor_double_def times20_def round_even_def Let_def half_double_def
        excess_bits_step excess_bits_stop)
  ultimately show ?thesis by (simp add: newBlock_def sourceActive_def)
qed

end

